theory Spec2Isabelle
  imports Complex_Main "HOL-Library.Multiset"
begin

section \<open>Numbers\<close>

text \<open>
  The program computes with numpy arrays of IEEE doubles and with Python floats.
  A numpy value is modelled as an exact real extended by the three special values
  of IEEE arithmetic: numpy does not raise on a division by zero or on an invalid
  operation, it returns an infinity or a NaN, and two places of the source test for
  exactly these values. Rounding, overflow of finite results and the sign of zero
  are not modelled: a finite result is the exact real, and a zero divisor counts as
  \<open>+0\<close>.
\<close>

datatype fl = Fin real | PInf | NInf | NaN

fun fl_neg :: "fl \<Rightarrow> fl" where
  "fl_neg (Fin a) = Fin (- a)"
| "fl_neg PInf = NInf"
| "fl_neg NInf = PInf"
| "fl_neg NaN = NaN"

fun fl_add :: "fl \<Rightarrow> fl \<Rightarrow> fl" where
  "fl_add (Fin a) (Fin b) = Fin (a + b)"
| "fl_add NaN _ = NaN"
| "fl_add _ NaN = NaN"
| "fl_add PInf NInf = NaN"
| "fl_add NInf PInf = NaN"
| "fl_add PInf _ = PInf"
| "fl_add _ PInf = PInf"
| "fl_add NInf _ = NInf"
| "fl_add _ NInf = NInf"

text \<open>The infinity of the given sign: \<open>True\<close> is positive.\<close>

fun inf_of :: "bool \<Rightarrow> fl" where
  "inf_of True = PInf"
| "inf_of False = NInf"

fun fl_mul :: "fl \<Rightarrow> fl \<Rightarrow> fl" where
  "fl_mul (Fin a) (Fin b) = Fin (a * b)"
| "fl_mul NaN _ = NaN"
| "fl_mul _ NaN = NaN"
| "fl_mul (Fin a) PInf = (if a = 0 then NaN else inf_of (0 < a))"
| "fl_mul (Fin a) NInf = (if a = 0 then NaN else inf_of (a < 0))"
| "fl_mul PInf (Fin b) = (if b = 0 then NaN else inf_of (0 < b))"
| "fl_mul NInf (Fin b) = (if b = 0 then NaN else inf_of (b < 0))"
| "fl_mul PInf PInf = PInf"
| "fl_mul NInf NInf = PInf"
| "fl_mul PInf NInf = NInf"
| "fl_mul NInf PInf = NInf"

fun fl_div :: "fl \<Rightarrow> fl \<Rightarrow> fl" where
  "fl_div (Fin a) (Fin b) =
     (if b \<noteq> 0 then Fin (a / b) else if a = 0 then NaN else inf_of (0 < a))"
| "fl_div NaN _ = NaN"
| "fl_div _ NaN = NaN"
| "fl_div (Fin a) PInf = Fin 0"
| "fl_div (Fin a) NInf = Fin 0"
| "fl_div PInf (Fin b) = inf_of (0 \<le> b)"
| "fl_div NInf (Fin b) = inf_of (b < 0)"
| "fl_div PInf PInf = NaN"
| "fl_div NInf NInf = NaN"
| "fl_div PInf NInf = NaN"
| "fl_div NInf PInf = NaN"

instantiation fl :: "{plus, minus, uminus, times, inverse}"
begin

definition plus_fl :: "fl \<Rightarrow> fl \<Rightarrow> fl" where
  "plus_fl a b = fl_add a b"

definition uminus_fl :: "fl \<Rightarrow> fl" where
  "uminus_fl a = fl_neg a"

definition minus_fl :: "fl \<Rightarrow> fl \<Rightarrow> fl" where
  "minus_fl a b = fl_add a (fl_neg b)"

definition times_fl :: "fl \<Rightarrow> fl \<Rightarrow> fl" where
  "times_fl a b = fl_mul a b"

definition divide_fl :: "fl \<Rightarrow> fl \<Rightarrow> fl" where
  "divide_fl a b = fl_div a b"

definition inverse_fl :: "fl \<Rightarrow> fl" where
  "inverse_fl a = fl_div (Fin 1) a"

instance ..

end

lemmas fl_arith = plus_fl_def uminus_fl_def minus_fl_def times_fl_def divide_fl_def

text \<open>\<open>x ** 2\<close> on a numpy value.\<close>

fun fl_sq :: "fl \<Rightarrow> fl" where
  "fl_sq (Fin a) = Fin (a\<^sup>2)"
| "fl_sq NaN = NaN"
| "fl_sq PInf = PInf"
| "fl_sq NInf = PInf"

text \<open>\<open>x ** .5\<close> and \<open>x ** (1 / 2)\<close> on a numpy value: a negative base gives NaN.\<close>

fun fl_sqrt :: "fl \<Rightarrow> fl" where
  "fl_sqrt (Fin a) = (if a < 0 then NaN else Fin (sqrt a))"
| "fl_sqrt NaN = NaN"
| "fl_sqrt PInf = PInf"
| "fl_sqrt NInf = PInf"

text \<open>
  \<open>x ** e\<close> on a numpy value, for a finite exponent \<open>e\<close>: the cases of C's
  \<open>pow\<close>. A negative base with an exponent that is not an integer gives NaN.
\<close>

definition odd_integer :: "real \<Rightarrow> bool" where
  "odd_integer e \<longleftrightarrow> e \<in> \<int> \<and> odd \<lfloor>e\<rfloor>"

fun fl_pow :: "fl \<Rightarrow> real \<Rightarrow> fl" where
  "fl_pow (Fin a) e =
     (if e = 0 then Fin 1
      else if 0 < a then Fin (a powr e)
      else if a = 0 then (if 0 < e then Fin 0 else PInf)
      else if e \<in> \<int> then Fin (a powi \<lfloor>e\<rfloor>)
      else NaN)"
| "fl_pow PInf e = (if e = 0 then Fin 1 else if 0 < e then PInf else Fin 0)"
| "fl_pow NInf e =
     (if e = 0 then Fin 1
      else if e < 0 then Fin 0
      else if odd_integer e then NInf else PInf)"
| "fl_pow NaN e = (if e = 0 then Fin 1 else NaN)"

fun fl_sin :: "fl \<Rightarrow> fl" where
  "fl_sin (Fin a) = Fin (sin a)"
| "fl_sin _ = NaN"

fun fl_cos :: "fl \<Rightarrow> fl" where
  "fl_cos (Fin a) = Fin (cos a)"
| "fl_cos _ = NaN"

fun fl_exp :: "fl \<Rightarrow> fl" where
  "fl_exp (Fin a) = Fin (exp a)"
| "fl_exp PInf = PInf"
| "fl_exp NInf = Fin 0"
| "fl_exp NaN = NaN"

text \<open>
  Python's own floats raise where numpy returns a special value. The scalar
  parameters of the program are Python floats, hence finite reals; an operation between
  two of them is Python's, an operation with a numpy value is numpy's.
\<close>

datatype error =
    ZeroDivisionError
  | ValueError
  | IndexError
  | TypeError
  | UnboundLocalError
  | ComplexResult

text \<open>
  \<open>ComplexResult\<close> is not a Python exception: Python's \<open>**\<close> returns a complex number
  for a negative float base and an exponent that is not an integer, and the computation
  leaves the real numbers, where this model stops.
\<close>

definition py_div :: "real \<Rightarrow> real \<Rightarrow> error + real" where
  "py_div a b = (if b = 0 then Inl ZeroDivisionError else Inr (a / b))"

definition py_pow :: "real \<Rightarrow> real \<Rightarrow> error + real" where
  "py_pow a e =
     (if e = 0 then Inr 1
      else if 0 < a then Inr (a powr e)
      else if a = 0 then (if 0 < e then Inr 0 else Inl ZeroDivisionError)
      else if e \<in> \<int> then Inr (a powi \<lfloor>e\<rfloor>)
      else Inl ComplexResult)"

definition bind :: "error + 'a \<Rightarrow> ('a \<Rightarrow> error + 'b) \<Rightarrow> error + 'b" where
  "bind r f = (case r of Inl e \<Rightarrow> Inl e | Inr x \<Rightarrow> f x)"

section \<open>Plasma parameters\<close>

text \<open>
  The dictionary \<open>params\<close>, with the keys the integrands read. \<open>const.k\<close> is the
  Boltzmann constant of \<open>scipy.constants\<close>.
\<close>

record params =
  K_RADAR :: real
  THETA :: real
  T :: real
  m :: real
  w_c :: real
  nu :: real
  kappa :: real
  vdf :: string

definition const_k :: real where
  "const_k = 1380649 / 10 ^ 29"

section \<open>The integrands\<close>

subsection \<open>\<open>INT_MAXWELL\<close>\<close>

text \<open>
  \<open>integrand\<close> is one numpy expression over the array \<open>self.y\<close>; every array in it
  is derived from \<open>self.y\<close> elementwise, so the model maps the expression over the
  samples, with the operations in the order Python evaluates them.
\<close>

definition maxwell_sample :: "params \<Rightarrow> real \<Rightarrow> fl" where
  "maxwell_sample ps y =
     fl_exp (- Fin y * Fin (nu ps)
       - Fin ((K_RADAR ps)\<^sup>2) * fl_sq (fl_sin (Fin (THETA ps))) * Fin (T ps) * Fin const_k
           / Fin (m ps * (w_c ps)\<^sup>2) * (Fin 1 - fl_cos (Fin (w_c ps * y)))
       - Fin (1 / 2) * fl_sq (Fin (K_RADAR ps) * fl_cos (Fin (THETA ps)) * Fin y)
           * Fin (T ps) * Fin const_k / Fin (m ps))"

definition maxwell_integrand :: "real list \<Rightarrow> params \<Rightarrow> fl list" where
  "maxwell_integrand y ps = map (maxwell_sample ps) y"

text \<open>
  Elementwise operation of two numpy arrays of one dimension: equal lengths, or one
  of them of length one (broadcast); any other pair of shapes raises.
\<close>

definition np_binop :: "('a \<Rightarrow> 'b \<Rightarrow> 'c) \<Rightarrow> 'a list \<Rightarrow> 'b list \<Rightarrow> error + 'c list" where
  "np_binop f a b =
     (if length a = length b then Inr (map2 f a b)
      else if length a = 1 then Inr (map (f (hd a)) b)
      else if length b = 1 then Inr (map (\<lambda>x. f x (hd b)) a)
      else Inl ValueError)"

subsection \<open>\<open>INT_KAPPA\<close>\<close>

text \<open>
  The object's attributes. \<open>__init__\<close> sets \<open>Z\<close> and \<open>Kn\<close> to the type object
  \<open>float\<close>, a placeholder that is no array: \<open>None\<close> here. \<open>sps.kv\<close>, the modified
  Bessel function of the second kind of scipy, is a parameter: order, argument.
\<close>

record int_kappa =
  kappa_y :: "real list"
  kappa_params :: params
  kappa_Z :: "fl list option"
  kappa_Kn :: "fl list option"

definition kappa_Z_sample :: "params \<Rightarrow> real \<Rightarrow> real \<Rightarrow> real \<Rightarrow> fl" where
  "kappa_Z_sample ps theta_2 c y =
     Fin c *
     fl_sqrt (Fin ((K_RADAR ps)\<^sup>2) * fl_sq (fl_sin (Fin (THETA ps))) * Fin theta_2 / Fin ((w_c ps)\<^sup>2)
                * (Fin 1 - fl_cos (Fin (w_c ps * y)))
              + Fin (1 / 2 * (K_RADAR ps)\<^sup>2) * fl_sq (fl_cos (Fin (THETA ps))) * Fin theta_2
                * Fin (y\<^sup>2))"

text \<open>\<open>self.Kn[self.Kn == np.inf] = 1\<close>\<close>

definition clamp_inf :: "fl list \<Rightarrow> fl list" where
  "clamp_inf Kn = map (\<lambda>k. if k = PInf then Fin 1 else k) Kn"

definition z_func :: "(real \<Rightarrow> fl \<Rightarrow> fl) \<Rightarrow> int_kappa \<Rightarrow> error + int_kappa" where
  "z_func kv s =
     (let ps = kappa_params s in
      bind (py_div (kappa ps - 3 / 2) (kappa ps)) (\<lambda>q.
      bind (py_div (2 * q * T ps * const_k) (m ps)) (\<lambda>theta_2.
      bind (py_pow (2 * kappa ps) (1 / 2)) (\<lambda>c.
        let Z = map (kappa_Z_sample ps theta_2 c) (kappa_y s);
            Kn = map (kv (kappa ps + 1 / 2)) Z
        in Inr (s\<lparr>kappa_Z := Some Z, kappa_Kn := Some (clamp_inf Kn)\<rparr>)))))"

definition kappa_initialize :: "(real \<Rightarrow> fl \<Rightarrow> fl) \<Rightarrow> real list \<Rightarrow> params \<Rightarrow> error + int_kappa" where
  "kappa_initialize kv y ps =
     z_func kv \<lparr>kappa_y = y, kappa_params = ps, kappa_Z = None, kappa_Kn = None\<rparr>"

definition kappa_integrand :: "int_kappa \<Rightarrow> error + fl list" where
  "kappa_integrand s =
     (case (kappa_Z s, kappa_Kn s) of
        (Some Z, Some Kn) \<Rightarrow>
          bind (np_binop (\<lambda>z k. fl_pow z (kappa (kappa_params s) + 1 / 2) * k) Z Kn) (\<lambda>zk.
          np_binop (\<lambda>a y. a * fl_exp (- Fin y * Fin (nu (kappa_params s)))) zk (kappa_y s))
      | _ \<Rightarrow> Inl TypeError)"

subsection \<open>\<open>INT_LONG\<close>: the derivative \<open>p_d\<close>\<close>

definition p_d_num :: "params \<Rightarrow> real \<Rightarrow> fl" where
  "p_d_num ps y =
     (let cos_t = fl_cos (Fin (THETA ps)); sin_t = fl_sin (Fin (THETA ps)) in
      Fin (\<bar>K_RADAR ps\<bar> * \<bar>w_c ps\<bar>)
        * (fl_sq cos_t * Fin (w_c ps) * Fin y + fl_sq sin_t * fl_sin (Fin (w_c ps * y))))"

definition p_d_den :: "params \<Rightarrow> real \<Rightarrow> fl" where
  "p_d_den ps y =
     (let cos_t = fl_cos (Fin (THETA ps)); sin_t = fl_sin (Fin (THETA ps)) in
      Fin (w_c ps)
        * fl_sqrt (fl_sq cos_t * Fin ((w_c ps)\<^sup>2) * Fin (y\<^sup>2)
                   - Fin 2 * fl_sq sin_t * fl_cos (Fin (w_c ps * y))
                   + Fin 2 * fl_sq sin_t))"

text \<open>\<open>np.sign(self.y[-1]) * abs(K_RADAR) * abs(w_c) / abs(w_c)\<close>, for the last sample.\<close>

definition p_d_first :: "params \<Rightarrow> real \<Rightarrow> fl" where
  "p_d_first ps y_last =
     Fin (sgn y_last) * Fin \<bar>K_RADAR ps\<bar> * Fin \<bar>w_c ps\<bar> / Fin \<bar>w_c ps\<bar>"

definition p_d :: "real list \<Rightarrow> params \<Rightarrow> error + fl list" where
  "p_d y ps =
     (if y = [] then Inl IndexError
      else Inr (map (\<lambda>yi. if p_d_den ps yi = Fin 0 then p_d_first ps (last y)
                           else p_d_num ps yi / p_d_den ps yi) y))"

section \<open>Shared buffers and worker pools\<close>

text \<open>
  A shared array holds its cells. \<open>writes\<close> is no state of the program: it lists the
  slots that were assigned, latest first, so that "written once" can be said.
  An assignment past the end raises.
\<close>

record 'a shared_array =
  cells :: "'a list"
  writes :: "nat list"

definition store :: "nat \<Rightarrow> 'a \<Rightarrow> 'a shared_array \<Rightarrow> error + 'a shared_array" where
  "store i v s =
     (if i < length (cells s) then Inr \<lparr>cells = (cells s)[i := v], writes = i # writes s\<rparr>
      else Inl IndexError)"

text \<open>
  A pool runs the work units it is given, each once, in an order the caller does not
  choose: \<open>sched\<close> is that order, and \<open>schedule_of\<close> says that it holds the work units
  and nothing else. The first worker that raises ends the map with its exception.
\<close>

fun pool_map :: "('u \<Rightarrow> 's \<Rightarrow> error + 's) \<Rightarrow> 'u list \<Rightarrow> 's \<Rightarrow> error + 's" where
  "pool_map func [] s = Inr s"
| "pool_map func (u # us) s = bind (func u s) (pool_map func us)"

definition schedule_of :: "'u list \<Rightarrow> 'u list \<Rightarrow> bool" where
  "schedule_of idx sched \<longleftrightarrow> mset sched = mset idx"

section \<open>The velocity integral (\<open>v_int_parallel\<close>)\<close>

definition p :: "real \<Rightarrow> params \<Rightarrow> fl" where
  "p y ps =
     (let k_perp = Fin (K_RADAR ps) * fl_sin (Fin (THETA ps));
          k_par = Fin (K_RADAR ps) * fl_cos (Fin (THETA ps))
      in fl_sqrt (Fin 2 * fl_sq k_perp / Fin ((w_c ps)\<^sup>2) * (Fin 1 - fl_cos (Fin (y * w_c ps)))
                  + fl_sq k_par * Fin (y\<^sup>2)))"

text \<open>
  \<open>si.simps\<close>, the quadrature of scipy, is a parameter: values, sample points. It
  raises when the two have different lengths.
\<close>

definition simps_checked :: "(fl list \<Rightarrow> fl list \<Rightarrow> fl) \<Rightarrow> fl list \<Rightarrow> fl list \<Rightarrow> error + fl" where
  "simps_checked simps val x =
     (if length val = length x then Inr (simps val x) else Inl ValueError)"

definition v_int_integrand ::
  "(fl list \<Rightarrow> fl list \<Rightarrow> fl) \<Rightarrow> real \<Rightarrow> params \<Rightarrow> fl list \<Rightarrow> fl list \<Rightarrow> error + fl" where
  "v_int_integrand simps y ps v f =
     (let sin = map (\<lambda>vi. fl_sin (p y ps * vi)) v in
      bind (np_binop (*) (map2 (*) v sin) f) (\<lambda>val.
      simps_checked simps val v))"

definition vip_parallel ::
  "(fl list \<Rightarrow> fl list \<Rightarrow> fl) \<Rightarrow> params \<Rightarrow> fl list \<Rightarrow> fl list \<Rightarrow> nat \<times> real
     \<Rightarrow> fl shared_array \<Rightarrow> error + fl shared_array" where
  "vip_parallel simps ps v f index array =
     bind (v_int_integrand simps (snd index) ps v f) (\<lambda>res. store (fst index) res array)"

text \<open>
  \<open>integrand\<close> returns the module's array itself, not a copy: the result is the
  buffer, which the next call writes again. \<open>array\<close> is its content on entry.
\<close>

definition vip_integrand ::
  "(fl list \<Rightarrow> fl list \<Rightarrow> fl) \<Rightarrow> (nat \<times> real) list \<Rightarrow> real list \<Rightarrow> params \<Rightarrow> fl list \<Rightarrow> fl list
     \<Rightarrow> fl list \<Rightarrow> error + fl shared_array" where
  "vip_integrand simps sched y ps v f array =
     pool_map (vip_parallel simps ps v f) sched \<lparr>cells = array, writes = []\<rparr>"

subsection \<open>\<open>INT_LONG\<close>: the velocity integral \<open>v_int\<close>\<close>

text \<open>
  The constants of \<open>inputs.config\<close> that \<open>v_int\<close> reads are parameters;
  \<open>V_N_POINTS\<close> is the value of \<open>int(cf.V_N_POINTS)\<close>. The distribution functions of
  \<open>utils.vdfs\<close> are parameters too: each field is the map from the velocity grid and
  the plasma parameters to the samples \<open>F(v, params).f_0()\<close>.
\<close>

record config =
  V_MAX :: real
  ORDER :: real
  V_N_POINTS :: int

record vdfs =
  F_MAXWELL :: "fl list \<Rightarrow> params \<Rightarrow> fl list"
  F_KAPPA :: "fl list \<Rightarrow> params \<Rightarrow> fl list"
  F_KAPPA_2 :: "fl list \<Rightarrow> params \<Rightarrow> fl list"
  F_GAUSS_SHELL :: "fl list \<Rightarrow> params \<Rightarrow> fl list"
  F_REAL_DATA :: "fl list \<Rightarrow> params \<Rightarrow> fl list"

text \<open>\<open>np.linspace(0, stop, num)\<close>\<close>

definition linspace0 :: "real \<Rightarrow> int \<Rightarrow> error + real list" where
  "linspace0 stop num =
     (if num < 0 then Inl ValueError
      else if num = 1 then Inr [0]
      else Inr (map (\<lambda>i. real i * (stop / real (nat num - 1))) [0..<nat num]))"

definition velocity_grid :: "config \<Rightarrow> error + fl list" where
  "velocity_grid cf =
     bind (py_div 1 (ORDER cf)) (\<lambda>e.
     bind (py_pow (V_MAX cf) e) (\<lambda>stop.
     bind (linspace0 stop (V_N_POINTS cf)) (\<lambda>xs.
     Inr (map (\<lambda>x. fl_pow (Fin x) (ORDER cf)) xs))))"

text \<open>The chain of \<open>if\<close>/\<open>elif\<close> on \<open>params['vdf']\<close>; no branch binds \<open>f\<close> for another tag.\<close>

definition select_vdf :: "vdfs \<Rightarrow> string \<Rightarrow> (fl list \<Rightarrow> params \<Rightarrow> fl list) option" where
  "select_vdf vd tag =
     (if tag = ''maxwell'' then Some (F_MAXWELL vd)
      else if tag = ''kappa'' then Some (F_KAPPA vd)
      else if tag = ''kappa_vol2'' then Some (F_KAPPA_2 vd)
      else if tag = ''gauss_shell'' then Some (F_GAUSS_SHELL vd)
      else if tag = ''real_data'' then Some (F_REAL_DATA vd)
      else None)"

record v_int_result =
  res :: "fl list"
  char_vel :: fl

text \<open>
  \<open>sched1\<close> and \<open>sched2\<close> are the orders of the two pools. \<open>res_maxwell\<close> and
  \<open>res\<close> are the same buffer: the second call starts from the cells the first one left,
  and \<open>int_maxwell\<close> is computed between the two.
\<close>

definition v_int ::
  "(fl list \<Rightarrow> fl list \<Rightarrow> fl) \<Rightarrow> vdfs \<Rightarrow> config \<Rightarrow> (nat \<times> real) list \<Rightarrow> (nat \<times> real) list
     \<Rightarrow> real list \<Rightarrow> params \<Rightarrow> fl list \<Rightarrow> error + v_int_result" where
  "v_int simps vd cf sched1 sched2 y ps array =
     bind (velocity_grid cf) (\<lambda>v.
     let f = select_vdf vd (vdf ps) in
     bind (vip_integrand simps sched1 y ps v (F_MAXWELL vd v ps) array) (\<lambda>res_maxwell.
     bind (simps_checked simps (cells res_maxwell) (map Fin y)) (\<lambda>int_maxwell.
     bind (case f of None \<Rightarrow> Inl UnboundLocalError | Some F \<Rightarrow> Inr (F v ps)) (\<lambda>f_0.
     bind (vip_integrand simps sched2 y ps v f_0 (cells res_maxwell)) (\<lambda>res.
     bind (simps_checked simps (cells res) (map Fin y)) (\<lambda>int_res.
     Inr \<lparr>res = cells res, char_vel = int_maxwell / int_res\<rparr>))))))"

text \<open>
  The same method with the diagnostic taken out: the lines that compute
  \<open>res_maxwell\<close>, \<open>int_maxwell\<close>, \<open>int_res\<close> and \<open>char_vel\<close> and the \<open>print\<close> removed.
  It is not in the source; the frame property of \<open>v_int\<close> is stated against it.
\<close>

definition v_int_without_diagnostic ::
  "(fl list \<Rightarrow> fl list \<Rightarrow> fl) \<Rightarrow> vdfs \<Rightarrow> config \<Rightarrow> (nat \<times> real) list
     \<Rightarrow> real list \<Rightarrow> params \<Rightarrow> fl list \<Rightarrow> error + fl list" where
  "v_int_without_diagnostic simps vd cf sched y ps array =
     bind (velocity_grid cf) (\<lambda>v.
     let f = select_vdf vd (vdf ps) in
     bind (case f of None \<Rightarrow> Inl UnboundLocalError | Some F \<Rightarrow> Inr (F v ps)) (\<lambda>f_0.
     bind (vip_integrand simps sched y ps v f_0 array) (\<lambda>res.
     Inr (cells res))))"

definition long_integrand ::
  "(fl list \<Rightarrow> fl list \<Rightarrow> fl) \<Rightarrow> vdfs \<Rightarrow> config \<Rightarrow> (nat \<times> real) list \<Rightarrow> (nat \<times> real) list
     \<Rightarrow> real list \<Rightarrow> params \<Rightarrow> fl list \<Rightarrow> error + fl list" where
  "long_integrand simps vd cf sched1 sched2 y ps array =
     bind (p_d y ps) (\<lambda>pd.
     bind (v_int simps vd cf sched1 sched2 y ps array) (\<lambda>r.
     np_binop (*) pd (res r)))"

section \<open>The frequency integral (\<open>parallelization\<close>)\<close>

text \<open>
  \<open>cf_w\<close> is the frequency grid \<open>cf.w\<close>; the module's array has \<open>len(cf.w)\<close> complex
  cells. \<open>tool.simpson\<close>, \<open>sps.gamma\<close> and the function \<open>intf.kappa_gordeyev\<close>, which
  \<open>integrate\<close> compares its argument with, are parameters. Complex values are the
  complex numbers: where a divisor is zero numpy returns a value that is not finite,
  which they do not have.
\<close>

type_synonym 'f simpson =
  "'f \<Rightarrow> real \<Rightarrow> real \<Rightarrow> real \<Rightarrow> real \<Rightarrow> real \<Rightarrow> real \<Rightarrow> real option \<Rightarrow> complex"

definition parallel ::
  "'f simpson \<Rightarrow> real \<Rightarrow> real \<Rightarrow> real \<Rightarrow> real \<Rightarrow> real \<Rightarrow> 'f \<Rightarrow> real option \<Rightarrow> nat \<times> real
     \<Rightarrow> complex shared_array \<Rightarrow> error + complex shared_array" where
  "parallel simpson = (\<lambda>w_c m T Lambda_s T_MAX function kappa index array.
     store (fst index) (simpson function (snd index) w_c m T Lambda_s T_MAX kappa) array)"

text \<open>Lines 29 to 34: the pool, over the work units \<open>enumerate(cf.w)\<close> in the order \<open>sched\<close>.\<close>

definition integrate_pool ::
  "'f simpson \<Rightarrow> (nat \<times> real) list \<Rightarrow> real \<Rightarrow> real \<Rightarrow> real \<Rightarrow> real \<Rightarrow> real \<Rightarrow> 'f \<Rightarrow> real option
     \<Rightarrow> complex list \<Rightarrow> error + complex shared_array" where
  "integrate_pool simpson sched = (\<lambda>w_c m T Lambda_s T_MAX function kappa array.
     pool_map (parallel simpson w_c m T Lambda_s T_MAX function kappa) sched
       \<lparr>cells = array, writes = []\<rparr>)"

text \<open>Lines 35 to 38. Without a \<open>kappa\<close>, \<open>None - 1 / 2\<close> raises.\<close>

definition rescale ::
  "(real \<Rightarrow> real) \<Rightarrow> 'f \<Rightarrow> 'f \<Rightarrow> real option \<Rightarrow> complex list \<Rightarrow> error + complex list" where
  "rescale gamma kappa_gordeyev = (\<lambda>function kappa array.
     if function = kappa_gordeyev then
       (case kappa of
          None \<Rightarrow> Inl TypeError
        | Some k \<Rightarrow>
            Inr (map (\<lambda>x. x / complex_of_real (2 powr (k - 1 / 2) * gamma (k + 1 / 2))) array))
     else Inr array)"

text \<open>Line 39.\<close>

definition transform :: "real list \<Rightarrow> real \<Rightarrow> real \<Rightarrow> complex list \<Rightarrow> error + complex list" where
  "transform cf_w = (\<lambda>Lambda_s w_c a.
     np_binop (\<lambda>w x. 1 - (\<i> * complex_of_real w + complex_of_real (Lambda_s * w_c)) * x) cf_w a)"

definition integrate ::
  "real list \<Rightarrow> 'f simpson \<Rightarrow> (real \<Rightarrow> real) \<Rightarrow> 'f \<Rightarrow> (nat \<times> real) list
     \<Rightarrow> real \<Rightarrow> real \<Rightarrow> real \<Rightarrow> real \<Rightarrow> real \<Rightarrow> 'f \<Rightarrow> real option
     \<Rightarrow> complex list \<Rightarrow> error + complex list" where
  "integrate cf_w simpson gamma kappa_gordeyev sched =
     (\<lambda>w_c m T Lambda_s T_MAX function kappa array.
        bind (integrate_pool simpson sched w_c m T Lambda_s T_MAX function kappa array) (\<lambda>array.
        bind (rescale gamma kappa_gordeyev function kappa (cells array)) (\<lambda>a.
        transform cf_w Lambda_s w_c a)))"

section \<open>Inputs for evaluation\<close>

text \<open>
  Concrete values on which the theorems below are evaluated. \<open>kv_pole\<close> has the one
  property of the Bessel function \<open>K\<close> that the source relies on, the pole at zero;
  the theorems themselves are about any \<open>kv\<close>.
\<close>

definition ps_sample :: params where
  "ps_sample =
     \<lparr>K_RADAR = 2, THETA = 0, T = 1000, m = 1, w_c = 3, nu = 5, kappa = 3, vdf = ''kappa''\<rparr>"

definition ps_kappa_zero :: params where
  "ps_kappa_zero = ps_sample\<lparr>kappa := 0\<rparr>"

definition kv_pole :: "real \<Rightarrow> fl \<Rightarrow> fl" where
  "kv_pole order z = (if z = Fin 0 then PInf else Fin 1)"

text \<open>
  For \<open>parallelization\<close>: two functions that \<open>integrate\<close> can be given, a grid of two
  frequencies, the order in which a pool runs the second work unit first, and functions
  in the places of \<open>tool.simpson\<close> and \<open>sps.gamma\<close>.
\<close>

datatype integrand_fn = Kappa_gordeyev | Maxwell_gordeyev

definition w_sample :: "real list" where
  "w_sample = [0, 1]"

definition sched_sample :: "(nat \<times> real) list" where
  "sched_sample = [(1, 1), (0, 0)]"

definition simpson_sample :: "integrand_fn simpson" where
  "simpson_sample = (\<lambda>function w w_c m T Lambda_s T_MAX kappa. Complex T_MAX w)"

definition gamma_sample :: "real \<Rightarrow> real" where
  "gamma_sample x = 2"

text \<open>
  For the velocity integral: two samples of the integration variable, a quadrature that
  adds the values up, a distribution function that is one everywhere, and a
  configuration whose velocity grid is \<open>[0, 1]\<close>.
\<close>

definition y_sample :: "real list" where
  "y_sample = [0, 1]"

definition simps_sample :: "fl list \<Rightarrow> fl list \<Rightarrow> fl" where
  "simps_sample val x = fold (+) val (Fin 0)"

definition f_ones :: "fl list \<Rightarrow> params \<Rightarrow> fl list" where
  "f_ones v ps = map (\<lambda>vi. Fin 1) v"

definition vdfs_sample :: vdfs where
  "vdfs_sample =
     \<lparr>F_MAXWELL = f_ones, F_KAPPA = f_ones, F_KAPPA_2 = f_ones, F_GAUSS_SHELL = f_ones,
      F_REAL_DATA = f_ones\<rparr>"

definition cf_sample :: config where
  "cf_sample = \<lparr>V_MAX = 1, ORDER = 1, V_N_POINTS = 2\<rparr>"

section \<open>Properties\<close>

lemma bind_Inr [simp]: "bind (Inr x) f = f x"
  by (simp add: bind_def)

lemma bind_Inl [simp]: "bind (Inl e) f = Inl e"
  by (simp add: bind_def)

lemma np_binop_same_length:
  "length a = length b \<Longrightarrow> np_binop f a b = Inr (map2 f a b)"
  by (simp add: np_binop_def)

lemma fl_mul_inf_of_zero [simp]: "fl_mul (inf_of b) (Fin 0) = NaN"
  by (cases b) simp_all

lemma fl_add_NaN_right [simp]: "fl_add x NaN = NaN"
  by (cases x) simp_all

lemma fl_mul_NaN_right [simp]: "fl_mul x NaN = NaN"
  by (cases x) simp_all

subsection \<open>The Maxwell integrand\<close>

lemma maxwell_sample_zero:
  "m ps \<noteq> 0 \<Longrightarrow> w_c ps \<noteq> 0 \<Longrightarrow> maxwell_sample ps 0 = Fin 1"
  by (simp add: maxwell_sample_def fl_arith)

text \<open>
  With a gyrofrequency of zero the coefficient of the perpendicular term is a quotient
  by zero, and the sample at \<open>y = 0\<close> is NaN: this is why the next theorem asks for a
  mass and a gyrofrequency that are not zero.
\<close>

lemma maxwell_sample_zero_gyrofrequency:
  "w_c ps = 0 \<Longrightarrow> maxwell_sample ps 0 = NaN"
  by (simp add: maxwell_sample_def fl_arith)

text \<open>
  C6. For the Maxwell variant, for every valid parameter combination, that is for every
  combination whose mass and gyrofrequency are not zero, the integrand at a sample
  \<open>y = 0\<close> is exactly 1.
\<close>

theorem maxwell_integrand_at_zero:
  assumes "m ps \<noteq> 0" and "w_c ps \<noteq> 0" and "i < length y" and "y ! i = 0"
  shows "maxwell_integrand y ps ! i = Fin 1"
  using assms by (simp add: maxwell_integrand_def maxwell_sample_zero)

theorem maxwell_integrand_at_zero_witness:
  "m ps_sample \<noteq> 0 \<and> w_c ps_sample \<noteq> 0 \<and> 0 < length [0, 1 :: real] \<and> [0, 1 :: real] ! 0 = 0
    \<and> maxwell_integrand [0, 1] ps_sample ! 0 = Fin 1"
  using maxwell_integrand_at_zero [of ps_sample 0 "[0, 1]"]
  by (simp add: ps_sample_def)

subsection \<open>The derivative \<open>p_d\<close>\<close>

lemma p_d_den_zero: "p_d_den ps 0 = Fin 0"
  by (simp add: p_d_den_def fl_arith)

lemma p_d_first_nonzero:
  "w_c ps \<noteq> 0 \<Longrightarrow> p_d_first ps yl = Fin (sgn yl * \<bar>K_RADAR ps\<bar>)"
  by (simp add: p_d_first_def fl_arith)

text \<open>
  C4. At every sample where the denominator of \<open>p_d\<close> is exactly zero, the value
  returned is \<open>sign(y_last) * |K| * |w_c| / |w_c|\<close>, which is \<open>sign(y_last) * |K|\<close>
  for a gyrofrequency other than zero; the denominator is zero at \<open>y = 0\<close>; and the
  value depends neither on the aspect angle nor on the sign of the gyrofrequency.
\<close>

theorem p_d_limit:
  assumes "i < length y" and "p_d_den ps (y ! i) = Fin 0"
  shows "(\<exists>out. p_d y ps = Inr out \<and> length out = length y
            \<and> out ! i = p_d_first ps (last y)
            \<and> (w_c ps \<noteq> 0 \<longrightarrow> out ! i = Fin (sgn (last y) * \<bar>K_RADAR ps\<bar>)))
         \<and> p_d_den ps 0 = Fin 0
         \<and> p_d_first (ps\<lparr>THETA := theta\<rparr>) (last y) = p_d_first ps (last y)
         \<and> p_d_first (ps\<lparr>w_c := - w_c ps\<rparr>) (last y) = p_d_first ps (last y)"
proof -
  from assms have "y \<noteq> []" by auto
  with assms have "\<exists>out. p_d y ps = Inr out \<and> length out = length y
           \<and> out ! i = p_d_first ps (last y)
           \<and> (w_c ps \<noteq> 0 \<longrightarrow> out ! i = Fin (sgn (last y) * \<bar>K_RADAR ps\<bar>))"
    by (simp add: p_d_def p_d_first_nonzero)
  moreover have "p_d_first (ps\<lparr>THETA := theta\<rparr>) (last y) = p_d_first ps (last y)"
    by (simp add: p_d_first_def)
  moreover have "p_d_first (ps\<lparr>w_c := - w_c ps\<rparr>) (last y) = p_d_first ps (last y)"
    by (simp add: p_d_first_def)
  ultimately show ?thesis
    using p_d_den_zero by blast
qed

theorem p_d_limit_witness:
  "0 < length [0, 1 :: real] \<and> p_d_den ps_sample ([0, 1] ! 0) = Fin 0
    \<and> (\<exists>out. p_d [0, 1] ps_sample = Inr out \<and> out ! 0 = Fin 2)"
proof -
  have den: "p_d_den ps_sample ([0, 1] ! 0) = Fin 0"
    by (simp add: p_d_den_zero)
  have "w_c ps_sample \<noteq> 0" "sgn (last [0, 1 :: real]) * \<bar>K_RADAR ps_sample\<bar> = 2"
    by (simp_all add: ps_sample_def)
  with p_d_limit [of 0 "[0, 1]" ps_sample, OF _ den] den show ?thesis
    by auto
qed

subsection \<open>The Kappa integrand\<close>


lemma clamp_inf_length [simp]: "length (clamp_inf Kn) = length Kn"
  by (simp add: clamp_inf_def)

lemma clamp_inf_nth:
  "i < length Kn \<Longrightarrow> clamp_inf Kn ! i = (if Kn ! i = PInf then Fin 1 else Kn ! i)"
  by (simp add: clamp_inf_def)

lemma clamp_inf_no_PInf: "PInf \<notin> set (clamp_inf Kn)"
  by (auto simp: clamp_inf_def)

lemma z_func_Inr:
  assumes "z_func kv s = Inr s'"
  shows "\<exists>theta_2 c. 
           kappa_Z s' = Some (map (kappa_Z_sample (kappa_params s) theta_2 c) (kappa_y s))
         \<and> kappa_Kn s' = Some (clamp_inf (map (kv (kappa (kappa_params s) + 1 / 2))
                (map (kappa_Z_sample (kappa_params s) theta_2 c) (kappa_y s))))
         \<and> kappa_y s' = kappa_y s \<and> kappa_params s' = kappa_params s"
  using assms
  apply (auto simp: z_func_def Let_def bind_def split: sum.splits)
  subgoal for q theta_2 c
    by (rule exI [of _ theta_2], rule exI [of _ c]) simp
  done

lemma kappa_integrand_Inr:
  assumes "kappa_Z s = Some Z" and "kappa_Kn s = Some Kn"
    and "length Z = length (kappa_y s)" and "length Kn = length (kappa_y s)"
  shows "kappa_integrand s =
    Inr (map (\<lambda>i. fl_pow (Z ! i) (kappa (kappa_params s) + 1 / 2) * Kn ! i
               * fl_exp (- Fin (kappa_y s ! i) * Fin (nu (kappa_params s)))) [0..<length (kappa_y s)])"
  using assms
  by (auto simp: kappa_integrand_def np_binop_same_length intro!: nth_equalityI)

text \<open>
  C5. For the Kappa variant, every sample whose Bessel evaluation is infinite is replaced
  by exactly 1 when \<open>initialize\<close> runs, before \<open>integrand\<close> forms the product
  \<open>Z ** (kappa + 1/2) * Kn * exp(- y * nu)\<close>, so that no infinite Bessel value enters the
  product. The source tests for \<open>+inf\<close>; the Bessel function \<open>K\<close> takes no negative
  value, and where \<open>kv\<close> never returns \<open>-inf\<close> no factor \<open>Kn\<close> is infinite.
\<close>

theorem kappa_clamp:
  assumes "kappa_initialize kv y ps = Inr s"
  shows "\<exists>Z Kn G. kappa_Z s = Some Z \<and> kappa_Kn s = Some Kn \<and> kappa_integrand s = Inr G
           \<and> length Z = length y \<and> length Kn = length y \<and> length G = length y
           \<and> (\<forall>i<length y.
                 Kn ! i = (if kv (kappa ps + 1 / 2) (Z ! i) = PInf then Fin 1
                           else kv (kappa ps + 1 / 2) (Z ! i))
               \<and> Kn ! i \<noteq> PInf
               \<and> ((\<forall>z. kv (kappa ps + 1 / 2) z \<noteq> NInf) \<longrightarrow> Kn ! i \<noteq> NInf)
               \<and> G ! i = fl_pow (Z ! i) (kappa ps + 1 / 2) * Kn ! i
                            * fl_exp (- Fin (y ! i) * Fin (nu ps)))"
proof -
  let ?s0 = "\<lparr>kappa_y = y, kappa_params = ps, kappa_Z = None, kappa_Kn = None\<rparr>"
  from assms have "z_func kv ?s0 = Inr s" by (simp add: kappa_initialize_def)
  from z_func_Inr [OF this] obtain theta_2 c where
    Z: "kappa_Z s = Some (map (kappa_Z_sample ps theta_2 c) y)"
    and Kn: "kappa_Kn s = Some (clamp_inf (map (kv (kappa ps + 1 / 2)) (map (kappa_Z_sample ps theta_2 c) y)))"
    and y: "kappa_y s = y" and ps: "kappa_params s = ps"
    by auto
  let ?Z = "map (kappa_Z_sample ps theta_2 c) y"
  let ?Kn = "clamp_inf (map (kv (kappa ps + 1 / 2)) ?Z)"
  have G: "kappa_integrand s =
    Inr (map (\<lambda>i. fl_pow (?Z ! i) (kappa ps + 1 / 2) * ?Kn ! i
               * fl_exp (- Fin (y ! i) * Fin (nu ps))) [0..<length y])"
    using kappa_integrand_Inr [OF Z Kn] by (simp add: y ps)
  have "\<forall>i<length y.
                 ?Kn ! i = (if kv (kappa ps + 1 / 2) (?Z ! i) = PInf then Fin 1
                           else kv (kappa ps + 1 / 2) (?Z ! i))
               \<and> ?Kn ! i \<noteq> PInf
               \<and> ((\<forall>z. kv (kappa ps + 1 / 2) z \<noteq> NInf) \<longrightarrow> ?Kn ! i \<noteq> NInf)"
    by (simp add: clamp_inf_nth)
  with Z Kn G show ?thesis by simp
qed



lemma kappa_initialize_exists:
  "0 < kappa ps \<Longrightarrow> m ps \<noteq> 0 \<Longrightarrow> \<exists>s. kappa_initialize kv y ps = Inr s"
  by (simp add: kappa_initialize_def z_func_def Let_def py_div_def py_pow_def)

theorem kappa_clamp_witness:
  "\<exists>s Kn. kappa_initialize kv_pole [0, 1] ps_sample = Inr s
      \<and> kappa_Kn s = Some Kn \<and> Kn ! 0 = Fin 1 \<and> Kn ! 1 = Fin 1"
proof -
  have "0 < kappa ps_sample" "m ps_sample \<noteq> 0" by (simp_all add: ps_sample_def)
  then obtain s where s: "kappa_initialize kv_pole [0, 1] ps_sample = Inr s"
    using kappa_initialize_exists by blast
  from kappa_clamp [OF s] obtain Kn where "kappa_Kn s = Some Kn" "Kn ! 0 = Fin 1" "Kn ! 1 = Fin 1"
    by (auto simp: kv_pole_def split: if_splits)
  with s show ?thesis by blast
qed

lemma kappa_Z_sample_zero:
  "w_c ps \<noteq> 0 \<Longrightarrow> kappa_Z_sample ps theta_2 c 0 = Fin 0"
  by (simp add: kappa_Z_sample_def fl_arith)

lemma kappa_initialize_valid:
  assumes "0 < kappa ps" and "m ps \<noteq> 0"
  shows "kappa_initialize kv y ps =
     Inr \<lparr>kappa_y = y, kappa_params = ps,
          kappa_Z = Some (map (kappa_Z_sample ps (2 * ((kappa ps - 3 / 2) / kappa ps) * T ps * const_k / m ps)
                                ((2 * kappa ps) powr (1 / 2))) y),
          kappa_Kn = Some (clamp_inf (map (kv (kappa ps + 1 / 2))
                            (map (kappa_Z_sample ps (2 * ((kappa ps - 3 / 2) / kappa ps) * T ps * const_k / m ps)
                                ((2 * kappa ps) powr (1 / 2))) y)))\<rparr>"
  using assms
  by (simp add: kappa_initialize_def z_func_def Let_def py_div_def py_pow_def)

text \<open>
  C10, amended. For the Kappa variant with a shape parameter above zero (and a mass and a
  gyrofrequency other than zero), at every sample \<open>y = 0\<close> the argument \<open>Z\<close> is
  exactly 0, the Bessel evaluation there, infinite, is clamped to 1, and the integrand
  returned at that sample is exactly 0.
\<close>

theorem kappa_integrand_at_zero:
  assumes "0 < kappa ps" and "m ps \<noteq> 0" and "w_c ps \<noteq> 0"
    and "kv (kappa ps + 1 / 2) (Fin 0) = PInf"
    and "i < length y" and "y ! i = 0"
  shows "\<exists>s Z Kn G. kappa_initialize kv y ps = Inr s
           \<and> kappa_Z s = Some Z \<and> kappa_Kn s = Some Kn \<and> kappa_integrand s = Inr G
           \<and> Z ! i = Fin 0 \<and> kv (kappa ps + 1 / 2) (Z ! i) = PInf \<and> Kn ! i = Fin 1
           \<and> G ! i = Fin 0"
proof -
  let ?Z = "map (kappa_Z_sample ps (2 * ((kappa ps - 3 / 2) / kappa ps) * T ps * const_k / m ps)
                                ((2 * kappa ps) powr (1 / 2))) y"
  let ?Kn = "clamp_inf (map (kv (kappa ps + 1 / 2)) ?Z)"
  let ?s = "\<lparr>kappa_y = y, kappa_params = ps, kappa_Z = Some ?Z, kappa_Kn = Some ?Kn\<rparr>"
  have init: "kappa_initialize kv y ps = Inr ?s"
    using assms(1,2) by (rule kappa_initialize_valid)
  have Zi: "?Z ! i = Fin 0"
    using assms(3,5,6) by (simp add: kappa_Z_sample_zero)
  have Kni: "?Kn ! i = Fin 1"
    using assms(4,5) Zi by (simp add: clamp_inf_nth)
  have "kappa_integrand ?s =
    Inr (map (\<lambda>i. fl_pow (?Z ! i) (kappa ps + 1 / 2) * ?Kn ! i
               * fl_exp (- Fin (y ! i) * Fin (nu ps))) [0..<length y])"
    using kappa_integrand_Inr [of ?s ?Z ?Kn] by simp
  moreover have "fl_pow (?Z ! i) (kappa ps + 1 / 2) * ?Kn ! i
               * fl_exp (- Fin (y ! i) * Fin (nu ps)) = Fin 0"
    unfolding Zi Kni using assms(1,6) by (simp add: fl_arith)
  ultimately have "\<exists>G. kappa_integrand ?s = Inr G \<and> G ! i = Fin 0"
    using assms(5) by simp
  with init Zi Kni assms(4) show ?thesis by auto
qed

theorem kappa_integrand_at_zero_witness:
  "\<exists>s G. kappa_initialize kv_pole [0, 1] ps_sample = Inr s \<and> kappa_integrand s = Inr G
      \<and> G ! 0 = Fin 0"
proof -
  have "0 < kappa ps_sample" "m ps_sample \<noteq> 0" "w_c ps_sample \<noteq> 0"
    "kv_pole (kappa ps_sample + 1 / 2) (Fin 0) = PInf" "0 < length [0, 1 :: real]"
    "[0, 1 :: real] ! 0 = 0"
    by (simp_all add: ps_sample_def kv_pole_def)
  from kappa_integrand_at_zero [of ps_sample kv_pole 0 "[0, 1]", OF this] show ?thesis by blast
qed

text \<open>
  C10 as stated asks only for \<open>kappa + 1/2 > 0\<close>. With \<open>kappa = 0\<close> the quotient
  \<open>(kappa - 3/2) / kappa\<close> of two Python numbers raises, and no integrand is returned.
\<close>

theorem kappa_zero_shape_counterexample:
  "0 < kappa ps_kappa_zero + 1 / 2 \<and> [0 :: real] ! 0 = 0
    \<and> kappa_initialize kv_pole [0] ps_kappa_zero = Inl ZeroDivisionError"
  by (simp add: ps_kappa_zero_def ps_sample_def kappa_initialize_def z_func_def py_div_def)

subsection \<open>Worker pools\<close>


lemma fold_update_length [simp]:
  "length (fold (\<lambda>u c. c[key u := g u]) sched c) = length c"
  by (induction sched arbitrary: c) simp_all

lemma fold_update_other:
  "i \<notin> key ` set sched \<Longrightarrow> fold (\<lambda>u c. c[key u := g u]) sched c ! i = c ! i"
  by (induction sched arbitrary: c) auto

lemma fold_update_nth:
  assumes "distinct (map key sched)" and "u \<in> set sched" and "key u < length c"
  shows "fold (\<lambda>u c. c[key u := g u]) sched c ! key u = g u"
  using assms
proof (induction sched arbitrary: c)
  case Nil
  then show ?case by simp
next
  case (Cons a sched)
  show ?case
  proof (cases "u \<in> set sched")
    case True
    with Cons show ?thesis by simp
  next
    case False
    with Cons.prems have ua: "u = a" and notin: "key a \<notin> key ` set sched" by auto
    show ?thesis
      using Cons.prems(3) by (simp add: ua fold_update_other [OF notin])
  qed
qed

lemma pool_map_store:
  assumes "\<And>u s. u \<in> set sched \<Longrightarrow> func u s = store (key u) (g u) s"
    and "\<forall>u\<in>set sched. key u < length (cells s)"
  shows "pool_map func sched s =
           Inr \<lparr>cells = fold (\<lambda>u c. c[key u := g u]) sched (cells s),
                writes = rev (map key sched) @ writes s\<rparr>"
  using assms
proof (induction sched arbitrary: s)
  case Nil
  then show ?case by simp
next
  case (Cons a sched)
  have "func a s = Inr \<lparr>cells = (cells s)[key a := g a], writes = key a # writes s\<rparr>"
    using Cons.prems by (simp add: store_def)
  moreover have "pool_map func sched \<lparr>cells = (cells s)[key a := g a], writes = key a # writes s\<rparr>
     = Inr \<lparr>cells = fold (\<lambda>u c. c[key u := g u]) sched ((cells s)[key a := g a]),
                writes = rev (map key sched) @ key a # writes s\<rparr>"
    using Cons.prems by (subst Cons.IH) simp_all
  ultimately show ?case by simp
qed

lemma schedule_of_set: "schedule_of idx sched \<Longrightarrow> set sched = set idx"
  by (auto simp: schedule_of_def dest: mset_eq_setD)

lemma schedule_of_keys:
  "schedule_of (enumerate 0 xs) sched \<Longrightarrow> mset (map fst sched) = mset [0..<length xs]"
  unfolding schedule_of_def
  by (metis (no_types) map_fst_enumerate add_0 mset_map )

lemma schedule_of_distinct:
  assumes "schedule_of (enumerate 0 xs) sched"
  shows "distinct (map fst sched)"
proof -
  have "mset (map fst sched) = mset [0..<length xs]"
    using assms by (rule schedule_of_keys)
  then show ?thesis
    by (metis distinct_upt mset_eq_imp_distinct_iff)
qed

lemma schedule_fold_nth:
  assumes "schedule_of (enumerate 0 xs) sched" and "i < length xs" and "length xs \<le> length c"
  shows "fold (\<lambda>u c. c[fst u := g u]) sched c ! i = g (i, xs ! i)"
proof -
  have "(i, xs ! i) \<in> set sched"
    using assms(1,2) by (simp add: schedule_of_set in_set_enumerate_eq)
  from fold_update_nth [OF schedule_of_distinct [OF assms(1)] this, of c g] assms
  show ?thesis by simp
qed

lemma schedule_fold_rest:
  assumes "schedule_of (enumerate 0 xs) sched" and "length xs \<le> i"
  shows "fold (\<lambda>u c. c[fst u := g u]) sched c ! i = c ! i"
proof -
  have "i \<notin> fst ` set sched"
    using assms by (auto simp: schedule_of_set in_set_enumerate_eq)
  then show ?thesis by (rule fold_update_other)
qed

lemma schedule_fold_full:
  assumes "schedule_of (enumerate 0 xs) sched" and "length c = length xs"
  shows "fold (\<lambda>u c. c[fst u := g u]) sched c = map g (enumerate 0 xs)"
  using assms
  by (auto intro!: nth_equalityI simp: schedule_fold_nth nth_enumerate_eq)

lemma schedule_in_range:
  assumes "schedule_of (enumerate 0 xs) sched" and "length xs \<le> n"
  shows "\<forall>u\<in>set sched. fst u < n"
  using assms by (auto simp: schedule_of_set in_set_enumerate_eq)


subsection \<open>The frequency integral\<close>

lemma map_snd_enumerate: "map (\<lambda>u. h (snd u)) (enumerate 0 xs) = map h xs"
  by (auto intro!: nth_equalityI simp: nth_enumerate_eq)

lemma integrate_pool_result:
  fixes w_c m T Lambda_s T_MAX :: real and kappa :: "real option"
  assumes "schedule_of (enumerate 0 cf_w) sched" and "length array = length cf_w"
  shows "integrate_pool simpson sched w_c m T Lambda_s T_MAX func kappa array =
           Inr \<lparr>cells = map (\<lambda>w. simpson func w w_c m T Lambda_s T_MAX kappa) cf_w,
                writes = rev (map fst sched)\<rparr>"
proof -
  let ?g = "\<lambda>u :: nat \<times> real. simpson func (snd u) w_c m T Lambda_s T_MAX kappa"
  have "\<forall>u\<in>set sched. fst u < length (cells \<lparr>cells = array, writes = []\<rparr>)"
    using schedule_in_range [OF assms(1), of "length array"] assms(2) by simp
  then have "integrate_pool simpson sched w_c m T Lambda_s T_MAX func kappa array =
     Inr \<lparr>cells = fold (\<lambda>u c. c[fst u := ?g u]) sched array, writes = rev (map fst sched)\<rparr>"
    unfolding integrate_pool_def
    by (subst pool_map_store [where key = fst and g = ?g]) (simp_all add: parallel_def)
  then show ?thesis
    using assms map_snd_enumerate [of "\<lambda>w. simpson func w w_c m T Lambda_s T_MAX kappa" cf_w]
    by (simp add: schedule_fold_full)
qed

lemma integrate_result:
  fixes w_c m T Lambda_s T_MAX :: real and kappa :: "real option"
  assumes "schedule_of (enumerate 0 cf_w) sched" and "length array = length cf_w"
  shows "integrate cf_w simpson gamma kappa_gordeyev sched w_c m T Lambda_s T_MAX func kappa array =
           bind (rescale gamma kappa_gordeyev func kappa
                   (map (\<lambda>w. simpson func w w_c m T Lambda_s T_MAX kappa) cf_w))
                (transform cf_w Lambda_s w_c)"
  by (simp add: integrate_def integrate_pool_result [OF assms])

lemma rescale_length:
  fixes kappa :: "real option"
  shows "rescale gamma kappa_gordeyev func kappa a = Inr a' \<Longrightarrow> length a' = length a"
  by (auto simp: rescale_def split: if_splits option.splits)

lemma transform_nth:
  fixes w_c Lambda_s :: real
  assumes "length a = length cf_w"
  shows "transform cf_w Lambda_s w_c a =
     Inr (map (\<lambda>i. 1 - (\<i> * complex_of_real (cf_w ! i) + complex_of_real (Lambda_s * w_c)) * a ! i)
            [0..<length cf_w])"
  using assms by (auto simp: transform_def np_binop_same_length intro!: nth_equalityI)

text \<open>
  C1. For every frequency sample \<open>w\<close> of the grid, the sequence that \<open>integrate\<close>
  returns has at the position of \<open>w\<close> the value \<open>1 - (i w + Lambda_s w_c) a(w)\<close>, where
  \<open>a\<close> is the buffer after the rescaling step; the sequence has the length of the grid.
  The buffer holds at each position the value of \<open>tool.simpson\<close> for that frequency.
\<close>

theorem integrate_output:
  fixes w_c m T Lambda_s T_MAX :: real and kappa :: "real option"
  assumes "schedule_of (enumerate 0 cf_w) sched" and "length array = length cf_w"
    and "func = kappa_gordeyev \<longrightarrow> kappa \<noteq> None"
  shows "\<exists>F a. integrate cf_w simpson gamma kappa_gordeyev sched w_c m T Lambda_s T_MAX func
                    kappa array = Inr F
           \<and> rescale gamma kappa_gordeyev func kappa
                (map (\<lambda>w. simpson func w w_c m T Lambda_s T_MAX kappa) cf_w) = Inr a
           \<and> length F = length cf_w \<and> length a = length cf_w
           \<and> (\<forall>i<length cf_w.
                 F ! i = 1 - (\<i> * complex_of_real (cf_w ! i) + complex_of_real (Lambda_s * w_c)) * a ! i)"
proof -
  let ?buf = "map (\<lambda>w. simpson func w w_c m T Lambda_s T_MAX kappa) cf_w"
  from assms(3) have "\<exists>a. rescale gamma kappa_gordeyev func kappa ?buf = Inr a"
    by (cases kappa) (simp_all add: rescale_def)
  then obtain a where a: "rescale gamma kappa_gordeyev func kappa ?buf = Inr a" ..
  then have len: "length a = length cf_w"
    using rescale_length by fastforce
  show ?thesis
    using a len by (simp add: integrate_result [OF assms(1,2)] transform_nth)
qed

text \<open>
  C2. The rescaling step of \<open>integrate\<close> divides every buffer entry by
  \<open>2 ** (kappa - 1/2) * gamma(kappa + 1/2)\<close> when the function is \<open>kappa_gordeyev\<close>, and
  leaves the buffer as it is for every other function. The Gamma function has no zero:
  the divisor is taken to be other than zero.
\<close>

theorem integrate_rescale:
  fixes w_c m T Lambda_s T_MAX :: real and kappa :: "real option"
  assumes "schedule_of (enumerate 0 cf_w) sched" and "length array = length cf_w"
  shows "(func = kappa_gordeyev \<longrightarrow> gamma (k + 1 / 2) \<noteq> 0 \<longrightarrow>
            rescale gamma kappa_gordeyev func (Some k) buf =
              Inr (map (\<lambda>x. x / complex_of_real (2 powr (k - 1 / 2) * gamma (k + 1 / 2))) buf)
          \<and> integrate cf_w simpson gamma kappa_gordeyev sched w_c m T Lambda_s T_MAX func
                  (Some k) array =
              transform cf_w Lambda_s w_c
                (map (\<lambda>w. simpson func w w_c m T Lambda_s T_MAX (Some k)
                            / complex_of_real (2 powr (k - 1 / 2) * gamma (k + 1 / 2))) cf_w))
       \<and> (func \<noteq> kappa_gordeyev \<longrightarrow>
            rescale gamma kappa_gordeyev func kappa buf = Inr buf
          \<and> integrate cf_w simpson gamma kappa_gordeyev sched w_c m T Lambda_s T_MAX func
                  kappa array =
              transform cf_w Lambda_s w_c
                (map (\<lambda>w. simpson func w w_c m T Lambda_s T_MAX kappa) cf_w))"
  by (simp add: integrate_result [OF assms] rescale_def o_def)

text \<open>
  C8. Two calls of \<open>integrate\<close> with the same arguments and the same grid return the same
  sequence, whatever the orders in which the two pools run their work units and whatever
  the buffer held before each call; and the call returns a sequence unless
  \<open>kappa_gordeyev\<close> comes without a \<open>kappa\<close>.
\<close>

theorem integrate_deterministic:
  fixes w_c m T Lambda_s T_MAX :: real and kappa :: "real option"
  assumes "schedule_of (enumerate 0 cf_w) sched1" and "schedule_of (enumerate 0 cf_w) sched2"
    and "length array1 = length cf_w" and "length array2 = length cf_w"
  shows "integrate cf_w simpson gamma kappa_gordeyev sched1 w_c m T Lambda_s T_MAX func
               kappa array1
         = integrate cf_w simpson gamma kappa_gordeyev sched2 w_c m T Lambda_s T_MAX func
               kappa array2
       \<and> ((func = kappa_gordeyev \<longrightarrow> kappa \<noteq> None) \<longrightarrow>
            (\<exists>F. integrate cf_w simpson gamma kappa_gordeyev sched1 w_c m T Lambda_s T_MAX func
                      kappa array1 = Inr F \<and> length F = length cf_w))"
proof -
  let ?buf = "map (\<lambda>w. simpson func w w_c m T Lambda_s T_MAX kappa) cf_w"
  have eq: "integrate cf_w simpson gamma kappa_gordeyev sched1 w_c m T Lambda_s T_MAX func
               kappa array1
         = integrate cf_w simpson gamma kappa_gordeyev sched2 w_c m T Lambda_s T_MAX func
               kappa array2"
    by (simp add: integrate_result [OF assms(1,3)] integrate_result [OF assms(2,4)])
  have "\<exists>F. integrate cf_w simpson gamma kappa_gordeyev sched1 w_c m T Lambda_s T_MAX func
                      kappa array1 = Inr F \<and> length F = length cf_w"
    if "func = kappa_gordeyev \<longrightarrow> kappa \<noteq> None"
  proof -
    from that have "\<exists>a. rescale gamma kappa_gordeyev func kappa ?buf = Inr a"
      by (cases kappa) (simp_all add: rescale_def)
    then obtain a where a: "rescale gamma kappa_gordeyev func kappa ?buf = Inr a" ..
    then have "length a = length cf_w"
      using rescale_length by fastforce
    with a show ?thesis
      by (simp add: integrate_result [OF assms(1,3)] transform_nth)
  qed
  with eq show ?thesis by blast
qed

lemma count_list_schedule:
  assumes "schedule_of (enumerate 0 xs) sched" and "i < length xs"
  shows "count_list (rev (map fst sched)) i = 1"
proof -
  have "count_list (rev (map fst sched)) i = count (mset (rev (map fst sched))) i"
    by (simp only: count_mset)
  also have "mset (rev (map fst sched)) = mset [0..<length xs]"
    using schedule_of_keys [OF assms(1)] by simp
  also have "count (mset [0..<length xs]) i = 1"
    using assms(2) distinct_upt [of 0 "length xs"]
    by (simp add: distinct_count_atmost_1 del: distinct_upt)
  finally show ?thesis .
qed

lemma bij_betw_fst_enumerate:
  "bij_betw fst (set (enumerate 0 xs)) {..<length xs}"
  unfolding bij_betw_def
proof
  show "inj_on fst (set (enumerate 0 xs))"
    by (auto simp: inj_on_def in_set_enumerate_eq)
  show "fst ` set (enumerate 0 xs) = {..<length xs}"
    unfolding set_map [symmetric] map_fst_enumerate by auto
qed

text \<open>
  C7. For a grid of \<open>N\<close> frequencies, when the pool of \<open>integrate\<close> has finished, every
  slot below \<open>N\<close> of the shared buffer has been assigned exactly once, by exactly one work
  unit, no other slot has been assigned, and the map from work units to slots is a
  bijection onto the slots below \<open>N\<close>. Nothing of what the buffer held before is left:
  the cell of each slot is the value that \<open>tool.simpson\<close> returns for the frequency of
  the one work unit that has this slot.
\<close>

theorem integrate_partition:
  fixes w_c m T Lambda_s T_MAX :: real and kappa :: "real option"
  assumes "schedule_of (enumerate 0 cf_w) sched" and "length array = length cf_w"
  shows "\<exists>s. integrate_pool simpson sched w_c m T Lambda_s T_MAX func kappa array = Inr s
           \<and> length (cells s) = length cf_w
           \<and> cells s = map (\<lambda>w. simpson func w w_c m T Lambda_s T_MAX kappa) cf_w
           \<and> (\<forall>i<length cf_w. count_list (writes s) i = 1)
           \<and> set (writes s) = {..<length cf_w}
           \<and> (\<forall>i<length cf_w. \<exists>!u. u \<in> set sched \<and> fst u = i)
           \<and> (\<forall>u\<in>set sched.
                 cells s ! fst u = simpson func (snd u) w_c m T Lambda_s T_MAX kappa)
           \<and> bij_betw fst (set (enumerate 0 cf_w)) {..<length cf_w}"
proof -
  have cell: "map (\<lambda>w. simpson func w w_c m T Lambda_s T_MAX kappa) cf_w ! fst u
                = simpson func (snd u) w_c m T Lambda_s T_MAX kappa" if "u \<in> set sched" for u
  proof -
    obtain i w where u: "u = (i, w)"
      by (cases u)
    from that have "(i, w) \<in> set (enumerate 0 cf_w)"
      by (simp add: u schedule_of_set [OF assms(1)])
    then show ?thesis
      by (simp add: u in_set_enumerate_eq)
  qed
  have set: "set (rev (map fst sched)) = {..<length cf_w}"
    using schedule_of_set [OF assms(1)] bij_betw_imp_surj_on [OF bij_betw_fst_enumerate [of cf_w]]
    by simp
  have uniq: "\<exists>!u. u \<in> set sched \<and> fst u = i" if "i < length cf_w" for i
  proof
    show "(i, cf_w ! i) \<in> set sched \<and> fst (i, cf_w ! i) = i"
      using that schedule_of_set [OF assms(1)] by (simp add: in_set_enumerate_eq)
    show "u = (i, cf_w ! i)" if "u \<in> set sched \<and> fst u = i" for u
      using that schedule_of_set [OF assms(1)] by (cases u) (auto simp: in_set_enumerate_eq)
  qed
  show ?thesis
    using set uniq cell count_list_schedule [OF assms(1)] bij_betw_fst_enumerate [of cf_w]
    by (simp add: integrate_pool_result [OF assms])
qed


lemma sched_sample_schedule: "schedule_of (enumerate 0 w_sample) sched_sample"
  by (simp add: schedule_of_def w_sample_def sched_sample_def enumerate_eq_zip)

theorem integrate_output_witness:
  "schedule_of (enumerate 0 w_sample) sched_sample \<and> length [5, 7 :: complex] = length w_sample
    \<and> Maxwell_gordeyev \<noteq> Kappa_gordeyev
    \<and> (\<exists>F. integrate w_sample simpson_sample gamma_sample Kappa_gordeyev sched_sample
               3 1 1000 0 10 Maxwell_gordeyev None [5, 7] = Inr F
          \<and> F ! 1 = 1 - (\<i> * 1 + 0) * Complex 10 1)"
proof -
  have len: "length [5, 7 :: complex] = length w_sample"
    by (simp add: w_sample_def)
  have fn: "Maxwell_gordeyev = Kappa_gordeyev \<longrightarrow> (None :: real option) \<noteq> None"
    by simp
  from integrate_output [OF sched_sample_schedule len fn,
      where simpson = simpson_sample and gamma = gamma_sample
        and w_c = 3 and m = 1 and T = 1000 and Lambda_s = 0 and T_MAX = 10]
  obtain F a where F: "integrate w_sample simpson_sample gamma_sample Kappa_gordeyev sched_sample
               3 1 1000 0 10 Maxwell_gordeyev None [5, 7] = Inr F"
    and a: "rescale gamma_sample Kappa_gordeyev Maxwell_gordeyev None
                (map (\<lambda>w. simpson_sample Maxwell_gordeyev w 3 1 1000 0 10 None) w_sample) = Inr a"
    and Fi: "\<forall>i<length w_sample.
                 F ! i = 1 - (\<i> * complex_of_real (w_sample ! i) + complex_of_real (0 * 3)) * a ! i"
    by blast
  from a have "a = [Complex 10 0, Complex 10 1]"
    by (simp add: rescale_def simpson_sample_def w_sample_def)
  with Fi have "F ! 1 = 1 - (\<i> * 1 + 0) * Complex 10 1"
    by (simp add: w_sample_def)
  with F sched_sample_schedule len show ?thesis by simp
qed

theorem integrate_rescale_witness:
  "schedule_of (enumerate 0 w_sample) sched_sample \<and> length [5, 7 :: complex] = length w_sample
    \<and> gamma_sample (3 + 1 / 2) \<noteq> 0
    \<and> rescale gamma_sample Kappa_gordeyev Kappa_gordeyev (Some 3) [8, 16] =
         Inr [8 / complex_of_real (2 powr (3 - 1 / 2) * 2), 16 / complex_of_real (2 powr (3 - 1 / 2) * 2)]
    \<and> rescale gamma_sample Kappa_gordeyev Maxwell_gordeyev (Some 3) [8, 16] = Inr [8, 16]"
proof -
  have len: "length [5, 7 :: complex] = length w_sample"
    by (simp add: w_sample_def)
  from integrate_rescale [OF sched_sample_schedule len,
      where func = Kappa_gordeyev and kappa_gordeyev = Kappa_gordeyev
        and gamma = gamma_sample and k = 3 and buf = "[8, 16]"]
  have "rescale gamma_sample Kappa_gordeyev Kappa_gordeyev (Some 3) [8, 16] =
         Inr [8 / complex_of_real (2 powr (3 - 1 / 2) * 2), 16 / complex_of_real (2 powr (3 - 1 / 2) * 2)]"
    by (simp add: gamma_sample_def)
  moreover from integrate_rescale [OF sched_sample_schedule len,
      where func = Maxwell_gordeyev and kappa_gordeyev = Kappa_gordeyev
        and gamma = gamma_sample and kappa = "Some 3" and buf = "[8, 16]"]
  have "rescale gamma_sample Kappa_gordeyev Maxwell_gordeyev (Some 3) [8, 16] = Inr [8, 16]"
    by simp
  ultimately show ?thesis
    using sched_sample_schedule len by (simp add: gamma_sample_def)
qed

theorem integrate_deterministic_witness:
  "schedule_of (enumerate 0 w_sample) sched_sample
    \<and> schedule_of (enumerate 0 w_sample) (enumerate 0 w_sample)
    \<and> length [5, 7 :: complex] = length w_sample \<and> length [0, 0 :: complex] = length w_sample
    \<and> integrate w_sample simpson_sample gamma_sample Kappa_gordeyev sched_sample
         3 1 1000 0 10 Kappa_gordeyev (Some 3) [5, 7]
       = integrate w_sample simpson_sample gamma_sample Kappa_gordeyev (enumerate 0 w_sample)
         3 1 1000 0 10 Kappa_gordeyev (Some 3) [0, 0]
    \<and> (\<exists>F. integrate w_sample simpson_sample gamma_sample Kappa_gordeyev sched_sample
         3 1 1000 0 10 Kappa_gordeyev (Some 3) [5, 7] = Inr F)"
proof -
  have len: "length [5, 7 :: complex] = length w_sample" "length [0, 0 :: complex] = length w_sample"
    by (simp_all add: w_sample_def)
  have id: "schedule_of (enumerate 0 w_sample) (enumerate 0 w_sample)"
    by (simp add: schedule_of_def)
  from integrate_deterministic [OF sched_sample_schedule id len,
      where simpson = simpson_sample and gamma = gamma_sample and kappa_gordeyev = Kappa_gordeyev
        and func = Kappa_gordeyev and kappa = "Some 3"
        and w_c = 3 and m = 1 and T = 1000 and Lambda_s = 0 and T_MAX = 10]
  have both: "integrate w_sample simpson_sample gamma_sample Kappa_gordeyev sched_sample
         3 1 1000 0 10 Kappa_gordeyev (Some 3) [5, 7]
       = integrate w_sample simpson_sample gamma_sample Kappa_gordeyev (enumerate 0 w_sample)
         3 1 1000 0 10 Kappa_gordeyev (Some 3) [0, 0]
    \<and> (\<exists>F. integrate w_sample simpson_sample gamma_sample Kappa_gordeyev sched_sample
         3 1 1000 0 10 Kappa_gordeyev (Some 3) [5, 7] = Inr F)"
    by blast
  show ?thesis
    using sched_sample_schedule id len both by blast
qed

theorem integrate_partition_witness:
  "schedule_of (enumerate 0 w_sample) sched_sample \<and> length [5, 7 :: complex] = length w_sample
    \<and> (\<exists>s. integrate_pool simpson_sample sched_sample 3 1 1000 0 10 Maxwell_gordeyev None [5, 7] = Inr s
          \<and> cells s = [Complex 10 0, Complex 10 1]
          \<and> count_list (writes s) 0 = 1 \<and> count_list (writes s) 1 = 1
          \<and> set (writes s) = {..<2})"
proof -
  have len: "length [5, 7 :: complex] = length w_sample"
    by (simp add: w_sample_def)
  have two: "length w_sample = 2"
    by (simp add: w_sample_def)
  from integrate_partition [OF sched_sample_schedule len,
      where simpson = simpson_sample and func = Maxwell_gordeyev and kappa = None
        and w_c = 3 and m = 1 and T = 1000 and Lambda_s = 0 and T_MAX = 10]
  obtain s where
    s: "integrate_pool simpson_sample sched_sample 3 1 1000 0 10 Maxwell_gordeyev None [5, 7] = Inr s"
    and c: "cells s = map (\<lambda>w. simpson_sample Maxwell_gordeyev w 3 1 1000 0 10 None) w_sample"
    and once: "\<forall>i<2. count_list (writes s) i = 1"
    and all: "set (writes s) = {..<2}"
    unfolding two by blast
  from c have "cells s = [Complex 10 0, Complex 10 1]"
    by (simp add: simpson_sample_def w_sample_def)
  moreover from once have "count_list (writes s) 0 = 1" "count_list (writes s) 1 = 1"
    by simp_all
  ultimately show ?thesis
    using s all sched_sample_schedule len by blast
qed

subsection \<open>The velocity integral\<close>


lemma v_int_integrand_same_length:
  assumes "length f = length v"
  shows "v_int_integrand simps y ps v f =
           Inr (simps (map (\<lambda>(vi, fi). vi * fl_sin (p y ps * vi) * fi) (zip v f)) v)"
proof -
  have "map2 (*) (map2 (*) v (map (\<lambda>vi. fl_sin (p y ps * vi)) v)) f
      = map (\<lambda>(vi, fi). vi * fl_sin (p y ps * vi) * fi) (zip v f)"
    using assms by (auto intro!: nth_equalityI)
  then show ?thesis
    using assms by (simp add: v_int_integrand_def Let_def np_binop_same_length simps_checked_def)
qed

lemma p_formula:
  assumes "w_c ps \<noteq> 0"
  shows "p y ps = Fin (sqrt (2 * (K_RADAR ps * sin (THETA ps))\<^sup>2 / (w_c ps)\<^sup>2 * (1 - cos (y * w_c ps))
                            + (K_RADAR ps * cos (THETA ps))\<^sup>2 * y\<^sup>2))"
proof -
  have "0 \<le> 2 * (K_RADAR ps * sin (THETA ps))\<^sup>2 / (w_c ps)\<^sup>2 * (1 - cos (y * w_c ps))"
    by (intro mult_nonneg_nonneg divide_nonneg_nonneg) simp_all
  moreover have "0 \<le> (K_RADAR ps * cos (THETA ps))\<^sup>2 * y\<^sup>2"
    by simp
  ultimately have "\<not> 2 * (K_RADAR ps * sin (THETA ps))\<^sup>2 / (w_c ps)\<^sup>2 * (1 - cos (y * w_c ps))
                            + (K_RADAR ps * cos (THETA ps))\<^sup>2 * y\<^sup>2 < 0"
    by linarith
  then show ?thesis
    using assms by (simp add: p_def Let_def fl_arith)
qed

lemma vip_integrand_result:
  assumes "schedule_of (enumerate 0 y) sched" and "length y \<le> length array"
    and "length f = length v"
  shows "vip_integrand simps sched y ps v f array =
           Inr \<lparr>cells = fold (\<lambda>u c. c[fst u :=
                    simps (map (\<lambda>(vi, fi). vi * fl_sin (p (snd u) ps * vi) * fi) (zip v f)) v])
                    sched array,
                writes = rev (map fst sched)\<rparr>"
proof -
  have "\<forall>u\<in>set sched. fst u < length (cells \<lparr>cells = array, writes = []\<rparr>)"
    using schedule_in_range [OF assms(1,2)] by simp
  then show ?thesis
    unfolding vip_integrand_def
    by (subst pool_map_store [where key = fst
          and g = "\<lambda>u. simps (map (\<lambda>(vi, fi). vi * fl_sin (p (snd u) ps * vi) * fi) (zip v f)) v"])
       (simp_all add: vip_parallel_def v_int_integrand_same_length [OF assms(3)])
qed

text \<open>
  C3. For every sample \<open>y\<close>, the value that \<open>v_int_parallel.integrand\<close> leaves at the
  position of that sample is the quadrature \<open>si.simps\<close> over the velocity grid \<open>v\<close> of
  \<open>v * sin(p(y) * v) * f\<close>, where \<open>p(y)\<close> is the square root of
  \<open>2 k_perp ** 2 / w_c ** 2 * (1 - cos(y w_c)) + k_par ** 2 * y ** 2\<close> with
  \<open>k_perp = K sin(theta)\<close> and \<open>k_par = K cos(theta)\<close>. The buffer has a cell for every sample,
  and \<open>v\<close> and \<open>f\<close> have one length; the closed form of \<open>p\<close> is that of the real numbers
  for a gyrofrequency other than zero, where the quotient is defined.
\<close>

theorem velocity_integral:
  assumes "schedule_of (enumerate 0 y) sched" and "length y \<le> length array"
    and "length f = length v"
  shows "\<exists>s. vip_integrand simps sched y ps v f array = Inr s
           \<and> length (cells s) = length array
           \<and> (\<forall>i<length y.
                 cells s ! i =
                   simps (map (\<lambda>(vi, fi). vi * fl_sin (p (y ! i) ps * vi) * fi) (zip v f)) v
               \<and> (w_c ps \<noteq> 0 \<longrightarrow>
                    p (y ! i) ps =
                      Fin (sqrt (2 * (K_RADAR ps * sin (THETA ps))\<^sup>2 / (w_c ps)\<^sup>2
                                   * (1 - cos (y ! i * w_c ps))
                                 + (K_RADAR ps * cos (THETA ps))\<^sup>2 * (y ! i)\<^sup>2))))"
proof -
  let ?g = "\<lambda>u :: nat \<times> real.
      simps (map (\<lambda>(vi, fi). vi * fl_sin (p (snd u) ps * vi) * fi) (zip v f)) v"
  have "fold (\<lambda>u c. c[fst u := ?g u]) sched array ! i = ?g (i, y ! i)" if "i < length y" for i
    using schedule_fold_nth [OF assms(1) that assms(2), of ?g] .
  then show ?thesis
    by (simp add: vip_integrand_result [OF assms] p_formula)
qed


lemma store_Inr:
  "store i x s = Inr s' \<Longrightarrow> i < length (cells s) \<and> length (cells s') = length (cells s)"
  by (auto simp: store_def split: if_splits)

lemma pool_map_vip_Inr:
  assumes "pool_map (vip_parallel simps ps v f) sched s = Inr s'"
  shows "\<forall>u\<in>set sched. (\<exists>r. v_int_integrand simps (snd u) ps v f = Inr r)
            \<and> fst u < length (cells s)"
  using assms
proof (induction sched arbitrary: s)
  case Nil
  then show ?case by simp
next
  case (Cons a sched)
  from Cons.prems obtain s1 where
    a: "vip_parallel simps ps v f a s = Inr s1"
    and rest: "pool_map (vip_parallel simps ps v f) sched s1 = Inr s'"
    by (auto simp: bind_def split: sum.splits)
  from a obtain r where r: "v_int_integrand simps (snd a) ps v f = Inr r"
    and st: "store (fst a) r s = Inr s1"
    by (auto simp: vip_parallel_def bind_def split: sum.splits)
  from store_Inr [OF st] Cons.IH [OF rest] r show ?case by auto
qed

lemma vip_integrand_cells:
  assumes "\<forall>u\<in>set sched. \<exists>r. v_int_integrand simps (snd u) ps v f = Inr r"
    and "\<forall>u\<in>set sched. fst u < length array"
  shows "vip_integrand simps sched y ps v f array =
           Inr \<lparr>cells = fold (\<lambda>u c. c[fst u := projr (v_int_integrand simps (snd u) ps v f)])
                          sched array,
                writes = rev (map fst sched)\<rparr>"
proof -
  have "vip_parallel simps ps v f u s =
          store (fst u) (projr (v_int_integrand simps (snd u) ps v f)) s"
    if "u \<in> set sched" for u s
    using assms(1) that by (auto simp: vip_parallel_def)
  then show ?thesis
    unfolding vip_integrand_def using assms(2)
    by (subst pool_map_store [where key = fst
          and g = "\<lambda>u. projr (v_int_integrand simps (snd u) ps v f)"]) simp_all
qed

lemma vip_integrand_Inr:
  assumes "vip_integrand simps sched y ps v f array = Inr s"
    and "schedule_of (enumerate 0 y) sched"
  shows "length y \<le> length array \<and> length (cells s) = length array
       \<and> (\<forall>i<length y. v_int_integrand simps (y ! i) ps v f = Inr (cells s ! i))
       \<and> (\<forall>i. length y \<le> i \<longrightarrow> cells s ! i = array ! i)"
proof -
  let ?g = "\<lambda>u :: nat \<times> real. projr (v_int_integrand simps (snd u) ps v f)"
  from pool_map_vip_Inr [OF assms(1) [unfolded vip_integrand_def]]
  have ok: "\<forall>u\<in>set sched. \<exists>r. v_int_integrand simps (snd u) ps v f = Inr r"
    and range: "\<forall>u\<in>set sched. fst u < length array"
    by auto
  have mem: "(i, y ! i) \<in> set sched" if "i < length y" for i
    using that schedule_of_set [OF assms(2)] by (simp add: in_set_enumerate_eq)
  have len: "length y \<le> length array"
  proof (rule ccontr)
    assume "\<not> length y \<le> length array"
    then have "length array < length y" by simp
    from mem [OF this] range show False by force
  qed
  from vip_integrand_cells [OF ok range, of y] assms(1)
  have s: "cells s = fold (\<lambda>u c. c[fst u := ?g u]) sched array"
    by auto
  have "v_int_integrand simps (y ! i) ps v f = Inr (cells s ! i)" if "i < length y" for i
  proof -
    from ok mem [OF that] obtain r where r: "v_int_integrand simps (y ! i) ps v f = Inr r"
      by force
    have "cells s ! i = ?g (i, y ! i)"
      unfolding s using schedule_fold_nth [OF assms(2) that len, of ?g] .
    with r show ?thesis by simp
  qed
  moreover have "cells s ! i = array ! i" if "length y \<le> i" for i
    unfolding s using schedule_fold_rest [OF assms(2) that] .
  ultimately show ?thesis
    using len s by simp
qed

lemma list_eq_by_samples:
  assumes "length a = n" and "length b = n"
    and "\<forall>i<n. (Inr (a ! i) :: error + fl) = Inr (b ! i)"
  shows "a = b"
  using assms by (auto intro!: nth_equalityI)

text \<open>
  C9. In the isotropic variant the diagnostic does not alter what \<open>v_int\<close> returns:
  whenever \<open>v_int\<close> returns, the sequence returned has one value for each sample, the
  velocity integral of the selected distribution at that sample, and it is the sequence
  that the method returns without the diagnostic, whatever the orders of the pools.
\<close>

theorem v_int_frame:
  assumes "v_int simps vd cf sched1 sched2 y ps array = Inr r"
    and "schedule_of (enumerate 0 y) sched1" and "schedule_of (enumerate 0 y) sched2"
    and "schedule_of (enumerate 0 y) sched"
  shows "\<exists>v F. velocity_grid cf = Inr v \<and> select_vdf vd (vdf ps) = Some F
           \<and> length (res r) = length y
           \<and> (\<forall>i<length y. v_int_integrand simps (y ! i) ps v (F v ps) = Inr (res r ! i))
           \<and> v_int_without_diagnostic simps vd cf sched y ps array = Inr (res r)"
proof -
  from assms(1) obtain v F s1 s2 where
    v: "velocity_grid cf = Inr v"
    and F: "select_vdf vd (vdf ps) = Some F"
    and s1: "vip_integrand simps sched1 y ps v (F_MAXWELL vd v ps) array = Inr s1"
    and l1: "length (cells s1) = length y"
    and s2: "vip_integrand simps sched2 y ps v (F v ps) (cells s1) = Inr s2"
    and r: "res r = cells s2"
    by (auto simp: v_int_def Let_def bind_def simps_checked_def
             split: sum.splits option.splits if_splits)
  from vip_integrand_Inr [OF s1 assms(2)] l1 have la: "length array = length y"
    by simp
  from vip_integrand_Inr [OF s2 assms(3)] l1
  have l2: "length (cells s2) = length y"
    and val: "\<forall>i<length y. v_int_integrand simps (y ! i) ps v (F v ps) = Inr (cells s2 ! i)"
    by simp_all
  have ok: "\<forall>u\<in>set sched. \<exists>r. v_int_integrand simps (snd u) ps v (F v ps) = Inr r"
    using val schedule_of_set [OF assms(4)] by (auto simp: in_set_enumerate_eq)
  have range: "\<forall>u\<in>set sched. fst u < length array"
    using schedule_in_range [OF assms(4), of "length array"] la by simp
  from vip_integrand_cells [OF ok range, of y] obtain s3 where
    s3: "vip_integrand simps sched y ps v (F v ps) array = Inr s3" by blast
  from vip_integrand_Inr [OF s3 assms(4)] la
  have l3: "length (cells s3) = length y"
    and val3: "\<forall>i<length y. v_int_integrand simps (y ! i) ps v (F v ps) = Inr (cells s3 ! i)"
    by simp_all
  have "cells s3 = cells s2"
    using l3 l2 val val3 by (intro list_eq_by_samples [of _ "length y"]) auto
  then have "v_int_without_diagnostic simps vd cf sched y ps array = Inr (res r)"
    by (simp add: v_int_without_diagnostic_def v F s3 r)
  with v F l2 val r show ?thesis by simp
qed


lemma sched_sample_y: "schedule_of (enumerate 0 y_sample) sched_sample"
  by (simp add: schedule_of_def y_sample_def sched_sample_def enumerate_eq_zip)

lemma velocity_grid_sample: "velocity_grid cf_sample = Inr [Fin 0, Fin 1]"
  by (simp add: velocity_grid_def cf_sample_def py_div_def py_pow_def linspace0_def
        upt_conv_Cons)

lemma v_int_returns:
  assumes "velocity_grid cf = Inr v" and "select_vdf vd (vdf ps) = Some F"
    and "length (F_MAXWELL vd v ps) = length v" and "length (F v ps) = length v"
    and "length array = length y"
    and "schedule_of (enumerate 0 y) sched1" and "schedule_of (enumerate 0 y) sched2"
  shows "\<exists>r. v_int simps vd cf sched1 sched2 y ps array = Inr r"
proof -
  have le: "length y \<le> length array"
    using assms(5) by simp
  note first = vip_integrand_result [OF assms(6) le assms(3), of simps ps]
  let ?c1 = "fold (\<lambda>u c. c[fst u := simps (map (\<lambda>(vi, fi). vi * fl_sin (p (snd u) ps * vi) * fi)
                 (zip v (F_MAXWELL vd v ps))) v]) sched1 array"
  have le2: "length y \<le> length ?c1"
    using assms(5) by simp
  note second = vip_integrand_result [OF assms(7) le2 assms(4), of simps ps]
  show ?thesis
    using assms(5)
    by (simp add: v_int_def assms(1,2) first second simps_checked_def Let_def)
qed

theorem velocity_integral_witness:
  "schedule_of (enumerate 0 y_sample) sched_sample
    \<and> length y_sample \<le> length [NaN, NaN]
    \<and> length [Fin 1, Fin 1] = length [Fin 0, Fin 1]
    \<and> (\<exists>s. vip_integrand simps_sample sched_sample y_sample ps_sample
               [Fin 0, Fin 1] [Fin 1, Fin 1] [NaN, NaN] = Inr s
          \<and> cells s ! 0 = Fin 0)"
proof -
  have le: "length y_sample \<le> length [NaN, NaN]"
    by (simp add: y_sample_def)
  have eq: "length [Fin 1, Fin 1] = length [Fin 0, Fin 1]"
    by simp
  from velocity_integral [OF sched_sample_y le eq, of simps_sample ps_sample]
  obtain s where s: "vip_integrand simps_sample sched_sample y_sample ps_sample
               [Fin 0, Fin 1] [Fin 1, Fin 1] [NaN, NaN] = Inr s"
    and val: "\<forall>i<length y_sample. cells s ! i =
         simps_sample (map (\<lambda>(vi, fi). vi * fl_sin (p (y_sample ! i) ps_sample * vi) * fi)
                         (zip [Fin 0, Fin 1] [Fin 1, Fin 1])) [Fin 0, Fin 1]"
    by blast
  have "p 0 ps_sample = Fin 0"
    by (simp add: p_def ps_sample_def fl_arith)
  with val have "cells s ! 0 = Fin 0"
    by (simp add: y_sample_def simps_sample_def fl_arith)
  with s sched_sample_y le show ?thesis by simp
qed

theorem v_int_frame_witness:
  "schedule_of (enumerate 0 y_sample) sched_sample
    \<and> schedule_of (enumerate 0 y_sample) (enumerate 0 y_sample)
    \<and> (\<exists>r. v_int simps_sample vdfs_sample cf_sample sched_sample (enumerate 0 y_sample)
               y_sample ps_sample [NaN, NaN] = Inr r
          \<and> length (res r) = length y_sample
          \<and> v_int_without_diagnostic simps_sample vdfs_sample cf_sample sched_sample
               y_sample ps_sample [NaN, NaN] = Inr (res r))"
proof -
  have id: "schedule_of (enumerate 0 y_sample) (enumerate 0 y_sample)"
    by (simp add: schedule_of_def)
  have sel: "select_vdf vdfs_sample (vdf ps_sample) = Some f_ones"
    by (simp add: select_vdf_def vdfs_sample_def ps_sample_def)
  have "\<exists>r. v_int simps_sample vdfs_sample cf_sample sched_sample (enumerate 0 y_sample)
               y_sample ps_sample [NaN, NaN] = Inr r"
    using velocity_grid_sample sel _ _ _ sched_sample_y id
    by (rule v_int_returns) (simp_all add: vdfs_sample_def f_ones_def y_sample_def)
  then obtain r where r: "v_int simps_sample vdfs_sample cf_sample sched_sample
      (enumerate 0 y_sample) y_sample ps_sample [NaN, NaN] = Inr r" ..
  from v_int_frame [OF r sched_sample_y id sched_sample_y] r sched_sample_y id
  show ?thesis by blast
qed

end
